theory Spec2Isabelle
  imports Complex_Main
begin

section \<open>Numbers\<close>

text \<open>
  A JavaScript \<open>number\<close> is modelled as an exact real or one of the three special
  values of IEEE 754. Finite arithmetic is exact: rounding, overflow, underflow and the
  sign of zero are not modelled. The special values arise exactly where IEEE 754
  defines them for exact operands: division by zero, \<open>0/0\<close>, \<open>Infinity - Infinity\<close>,
  \<open>0 * Infinity\<close>, and \<open>Math.sqrt\<close>/\<open>Math.log\<close> outside their domain. Since zero is
  unsigned here, a quotient \<open>x / 0\<close> takes the sign of \<open>x\<close>.
\<close>

datatype jsnum = Fin real | PInf | NInf | NaN

fun finite_num :: "jsnum \<Rightarrow> bool" where
  "finite_num (Fin _) = True"
| "finite_num _ = False"

instantiation jsnum :: uminus
begin
fun uminus_jsnum :: "jsnum \<Rightarrow> jsnum" where
  "uminus_jsnum (Fin a) = Fin (- a)"
| "uminus_jsnum PInf = NInf"
| "uminus_jsnum NInf = PInf"
| "uminus_jsnum NaN = NaN"
instance ..
end

instantiation jsnum :: plus
begin
fun plus_jsnum :: "jsnum \<Rightarrow> jsnum \<Rightarrow> jsnum" where
  "plus_jsnum (Fin a) (Fin b) = Fin (a + b)"
| "plus_jsnum NaN _ = NaN"
| "plus_jsnum _ NaN = NaN"
| "plus_jsnum PInf NInf = NaN"
| "plus_jsnum NInf PInf = NaN"
| "plus_jsnum PInf _ = PInf"
| "plus_jsnum _ PInf = PInf"
| "plus_jsnum NInf _ = NInf"
| "plus_jsnum _ NInf = NInf"
instance ..
end

instantiation jsnum :: minus
begin
definition minus_jsnum :: "jsnum \<Rightarrow> jsnum \<Rightarrow> jsnum" where
  "minus_jsnum x y = x + (- y)"
instance ..
end

instantiation jsnum :: times
begin
fun times_jsnum :: "jsnum \<Rightarrow> jsnum \<Rightarrow> jsnum" where
  "times_jsnum (Fin a) (Fin b) = Fin (a * b)"
| "times_jsnum NaN _ = NaN"
| "times_jsnum _ NaN = NaN"
| "times_jsnum PInf (Fin b) = (if b = 0 then NaN else if 0 < b then PInf else NInf)"
| "times_jsnum NInf (Fin b) = (if b = 0 then NaN else if 0 < b then NInf else PInf)"
| "times_jsnum (Fin a) PInf = (if a = 0 then NaN else if 0 < a then PInf else NInf)"
| "times_jsnum (Fin a) NInf = (if a = 0 then NaN else if 0 < a then NInf else PInf)"
| "times_jsnum PInf PInf = PInf"
| "times_jsnum PInf NInf = NInf"
| "times_jsnum NInf PInf = NInf"
| "times_jsnum NInf NInf = PInf"
instance ..
end

instantiation jsnum :: inverse
begin
fun divide_jsnum :: "jsnum \<Rightarrow> jsnum \<Rightarrow> jsnum" where
  "divide_jsnum (Fin a) (Fin b) =
     (if b = 0 then (if a = 0 then NaN else if 0 < a then PInf else NInf)
      else Fin (a / b))"
| "divide_jsnum NaN _ = NaN"
| "divide_jsnum _ NaN = NaN"
| "divide_jsnum (Fin a) PInf = Fin 0"
| "divide_jsnum (Fin a) NInf = Fin 0"
| "divide_jsnum PInf (Fin b) = (if 0 \<le> b then PInf else NInf)"
| "divide_jsnum NInf (Fin b) = (if 0 \<le> b then NInf else PInf)"
| "divide_jsnum PInf PInf = NaN"
| "divide_jsnum PInf NInf = NaN"
| "divide_jsnum NInf PInf = NaN"
| "divide_jsnum NInf NInf = NaN"
fun inverse_jsnum :: "jsnum \<Rightarrow> jsnum" where
  "inverse_jsnum (Fin b) = (if b = 0 then PInf else Fin (1 / b))"
| "inverse_jsnum PInf = Fin 0"
| "inverse_jsnum NInf = Fin 0"
| "inverse_jsnum NaN = NaN"
instance ..
end

instantiation jsnum :: abs
begin
fun abs_jsnum :: "jsnum \<Rightarrow> jsnum" where
  "abs_jsnum (Fin a) = Fin \<bar>a\<bar>"
| "abs_jsnum PInf = PInf"
| "abs_jsnum NInf = PInf"
| "abs_jsnum NaN = NaN"
instance ..
end

text \<open>Comparisons: every comparison with \<open>NaN\<close> is false.\<close>

instantiation jsnum :: ord
begin
fun less_jsnum :: "jsnum \<Rightarrow> jsnum \<Rightarrow> bool" where
  "less_jsnum (Fin a) (Fin b) = (a < b)"
| "less_jsnum NaN _ = False"
| "less_jsnum _ NaN = False"
| "less_jsnum _ NInf = False"
| "less_jsnum PInf _ = False"
| "less_jsnum NInf _ = True"
| "less_jsnum _ PInf = True"
fun less_eq_jsnum :: "jsnum \<Rightarrow> jsnum \<Rightarrow> bool" where
  "less_eq_jsnum (Fin a) (Fin b) = (a \<le> b)"
| "less_eq_jsnum NaN _ = False"
| "less_eq_jsnum _ NaN = False"
| "less_eq_jsnum NInf _ = True"
| "less_eq_jsnum _ PInf = True"
| "less_eq_jsnum _ NInf = False"
| "less_eq_jsnum PInf _ = False"
instance ..
end

text \<open>Strict equality \<open>===\<close> on numbers: \<open>NaN\<close> equals nothing, itself included.\<close>

definition strict_eq :: "jsnum \<Rightarrow> jsnum \<Rightarrow> bool" where
  "strict_eq x y = (x \<noteq> NaN \<and> x = y)"

fun js_sqrt :: "jsnum \<Rightarrow> jsnum" where
  "js_sqrt (Fin a) = (if a < 0 then NaN else Fin (sqrt a))"
| "js_sqrt PInf = PInf"
| "js_sqrt NInf = NaN"
| "js_sqrt NaN = NaN"

fun js_exp :: "jsnum \<Rightarrow> jsnum" where
  "js_exp (Fin a) = Fin (exp a)"
| "js_exp PInf = PInf"
| "js_exp NInf = Fin 0"
| "js_exp NaN = NaN"

fun js_log :: "jsnum \<Rightarrow> jsnum" where
  "js_log (Fin a) = (if a < 0 then NaN else if a = 0 then NInf else Fin (ln a))"
| "js_log PInf = PInf"
| "js_log NInf = NaN"
| "js_log NaN = NaN"


text \<open>
  Reading \<open>xs[i]\<close> in an arithmetic expression: an index outside the array yields
  \<open>undefined\<close>, which every arithmetic operator turns into \<open>NaN\<close>.
\<close>

definition elem :: "jsnum list \<Rightarrow> nat \<Rightarrow> jsnum" where
  "elem xs i = (if i < length xs then xs ! i else NaN)"

text \<open>
  The only exceptions the modelled code can raise are those of the language itself:
  \<open>TypeError\<close> from \<open>reduce\<close> on an empty array without an initial value, and
  \<open>RangeError\<close> from \<open>new Array(len)\<close> with an invalid length. The source contains
  no \<open>throw\<close> statement.
\<close>

datatype error = TypeError | RangeError

record CorrelationResult =
  coefficient :: jsnum
  pValue :: jsnum
  significant :: bool

section \<open>Special functions (correlationAnalysis.ts)\<close>

definition erf :: "jsnum \<Rightarrow> jsnum" where
  "erf x =
     (let t = Fin 1 / (Fin 1 + Fin 0.5 * \<bar>x\<bar>);
          tau = t * js_exp
            ((- x) * x - Fin 1.26551223 +
             Fin 1.00002368 * t +
             Fin 0.37409196 * t * t +
             Fin 0.09678418 * t * t * t -
             Fin 0.18628806 * t * t * t * t +
             Fin 0.27886807 * t * t * t * t * t -
             Fin 1.13520398 * t * t * t * t * t * t +
             Fin 1.48851587 * t * t * t * t * t * t * t -
             Fin 0.82215223 * t * t * t * t * t * t * t * t +
             Fin 0.17087277 * t * t * t * t * t * t * t * t * t)
      in if Fin 0 \<le> x then Fin 1 - tau else tau - Fin 1)"

definition normalCDF :: "jsnum \<Rightarrow> jsnum" where
  "normalCDF x = Fin 0.5 * (Fin 1 + erf (x / js_sqrt (Fin 2)))"

definition gammaLn_c :: "jsnum list" where
  "gammaLn_c =
     [Fin 76.18009172947146, Fin (- 86.50532032941677), Fin 24.01409824083091,
      Fin (- 1.231739572450155), Fin 0.001208650973866179, Fin (- 0.000005395239384953)]"

definition gammaLn :: "jsnum \<Rightarrow> jsnum" where
  "gammaLn x =
     (let tmp = x + Fin 5.5;
          tmp = tmp - (x + Fin 0.5) * js_log tmp;
          (ser, y) = fold (\<lambda>j (ser, y). let y = y + Fin 1 in (ser + elem gammaLn_c j / y, y))
                       [0..<6] (Fin 1.000000000190015, x)
      in (- tmp) + js_log (Fin 2.5066282746310005 * ser / x))"

text \<open>
  The continued fraction of \<open>betaCF\<close>. The source declares \<open>aa\<close> with \<open>const\<close> and
  assigns it a second time in the same iteration; the model reads both as assignments
  to one local variable, which is the algorithm the loop spells out and what a build
  that lowers \<open>const\<close> to \<open>var\<close> executes.
\<close>

definition epsilon :: jsnum where
  "epsilon = Fin (1 / 10 ^ 8)"

definition maxIterations :: nat where
  "maxIterations = 200"

definition floor_eps :: "jsnum \<Rightarrow> jsnum" where
  \<comment> \<open>\<open>if (Math.abs(d) < epsilon) d = epsilon\<close>\<close>
  "floor_eps d = (if \<bar>d\<bar> < epsilon then epsilon else d)"

text \<open>One pass through the loop body at iteration \<open>m\<close>: the new \<open>c\<close>, \<open>d\<close>, \<open>h\<close> and \<open>del\<close>.\<close>

definition betaCF_body ::
  "jsnum \<Rightarrow> jsnum \<Rightarrow> jsnum \<Rightarrow> nat \<Rightarrow> jsnum \<times> jsnum \<times> jsnum \<Rightarrow> jsnum \<times> jsnum \<times> jsnum \<times> jsnum" where
  "betaCF_body x a b k s =
     (case s of (c, d, h) \<Rightarrow>
     (let qab = a + b; qap = a + Fin 1; qam = a - Fin 1;
          m = Fin (real k); m2 = Fin 2 * m;
          aa = m * (b - m) * x / ((qam + m2) * (a + m2));
          d = floor_eps (Fin 1 + aa * d);
          c = floor_eps (Fin 1 + aa / c);
          d = Fin 1 / d;
          h = h * (d * c);
          aa = (- (a + m)) * (qab + m) * x / ((a + m2) * (qap + m2));
          d = floor_eps (Fin 1 + aa * d);
          c = floor_eps (Fin 1 + aa / c);
          d = Fin 1 / d;
          del = d * c;
          h = h * del
      in (c, d, h, del)))"

function betaCF_loop ::
  "jsnum \<Rightarrow> jsnum \<Rightarrow> jsnum \<Rightarrow> nat \<Rightarrow> jsnum \<times> jsnum \<times> jsnum \<Rightarrow> jsnum" where
  "betaCF_loop x a b m s =
     (if m \<le> maxIterations then
        (case betaCF_body x a b m s of (c, d, h, del) \<Rightarrow>
           if \<bar>del - Fin 1\<bar> < epsilon then h
           else betaCF_loop x a b (m + 1) (c, d, h))
      else (case s of (c, d, h) \<Rightarrow> h))"
  by pat_completeness auto
termination
  by (relation "measure (\<lambda>(x, a, b, m, s). Suc maxIterations - m)") auto

declare betaCF_loop.simps [simp del]

definition betaCF_init :: "jsnum \<Rightarrow> jsnum \<Rightarrow> jsnum \<Rightarrow> jsnum \<times> jsnum \<times> jsnum" where
  "betaCF_init x a b =
     (let qab = a + b; qap = a + Fin 1;
          d = floor_eps (Fin 1 - qab * x / qap);
          d = Fin 1 / d
      in (Fin 1, d, d))"

definition betaCF :: "jsnum \<Rightarrow> jsnum \<Rightarrow> jsnum \<Rightarrow> jsnum" where
  "betaCF x a b = betaCF_loop x a b 1 (betaCF_init x a b)"

definition incompleteBeta :: "jsnum \<Rightarrow> jsnum \<Rightarrow> jsnum \<Rightarrow> jsnum" where
  "incompleteBeta x a b =
     (if strict_eq x (Fin 0) then Fin 0
      else if strict_eq x (Fin 1) then Fin 1
      else
        let lnBeta = gammaLn (a + b) - gammaLn a - gammaLn b;
            bt = js_exp (js_log x * a + js_log (Fin 1 - x) * b - lnBeta)
        in if x < (a + Fin 1) / (a + b + Fin 2) then bt * betaCF x a b / a
           else Fin 1 - bt * betaCF (Fin 1 - x) b a / b)"

definition calculateTDistributionPValue :: "jsnum \<Rightarrow> jsnum \<Rightarrow> jsnum" where
  "calculateTDistributionPValue t df =
     (let x = df / (df + t * t) in Fin 1 - incompleteBeta x (df / Fin 2) (Fin 0.5))"

definition calculateFDistributionPValue :: "jsnum \<Rightarrow> jsnum \<Rightarrow> jsnum \<Rightarrow> jsnum" where
  "calculateFDistributionPValue F df1 df2 =
     (let x = df2 / (df2 + df1 * F) in incompleteBeta x (df2 / Fin 2) (df1 / Fin 2))"

section \<open>Correlation engine (correlationAnalysis.ts)\<close>

text \<open>\<open>xs.reduce((a, b) => a + b)\<close>: no initial value, so an empty array raises.\<close>

fun reduce_add :: "jsnum list \<Rightarrow> error + jsnum" where
  "reduce_add [] = Inl TypeError"
| "reduce_add (v # vs) = Inr (foldl (+) v vs)"

definition pearson_sums ::
  "jsnum list \<Rightarrow> jsnum list \<Rightarrow> jsnum \<Rightarrow> jsnum \<Rightarrow> jsnum \<times> jsnum \<times> jsnum" where
  "pearson_sums x y xMean yMean =
     fold (\<lambda>i (numerator, xDenominator, yDenominator).
             let xDiff = elem x i - xMean;
                 yDiff = elem y i - yMean
             in (numerator + xDiff * yDiff,
                 xDenominator + xDiff * xDiff,
                 yDenominator + yDiff * yDiff))
          [0..<length x] (Fin 0, Fin 0, Fin 0)"

definition calculatePearsonCorrelation ::
  "jsnum list \<Rightarrow> jsnum list \<Rightarrow> error + CorrelationResult" where
  "calculatePearsonCorrelation x y =
     (case reduce_add x of Inl e \<Rightarrow> Inl e | Inr xSum \<Rightarrow>
     (case reduce_add y of Inl e \<Rightarrow> Inl e | Inr ySum \<Rightarrow>
     (let n = Fin (real (length x));
          xMean = xSum / n;
          yMean = ySum / n
      in (case pearson_sums x y xMean yMean of (numerator, xDenominator, yDenominator) \<Rightarrow>
     (let r = numerator / js_sqrt (xDenominator * yDenominator);
          tStat = r * js_sqrt ((n - Fin 2) / (Fin 1 - r * r));
          pValue = calculateTDistributionPValue tStat (n - Fin 2)
      in Inr \<lparr>coefficient = r, pValue = pValue, significant = (pValue < Fin 0.05)\<rparr>)))))"

text \<open>
  The rank transform. The comparator \<open>(a, b) => a - b\<close> orders finite numbers by value;
  on \<open>NaN\<close> or two equal infinities it returns \<open>NaN\<close> and the resulting order is left to
  the engine, so the transform is modelled on finite inputs. \<open>indexOf\<close> returns the first
  position holding the value, or \<open>-1\<close>.
\<close>

fun indexOf :: "real list \<Rightarrow> real \<Rightarrow> int" where
  "indexOf [] v = - 1"
| "indexOf (w # ws) v =
     (if w = v then 0 else (let k = indexOf ws v in if k = - 1 then - 1 else k + 1))"

definition calculateRanks :: "real list \<Rightarrow> real list" where
  "calculateRanks values =
     (let sorted = sort values in map (\<lambda>v. real_of_int (indexOf sorted v + 1)) values)"

definition calculateSpearmanCorrelation ::
  "real list \<Rightarrow> real list \<Rightarrow> error + CorrelationResult" where
  "calculateSpearmanCorrelation x y =
     (let xRanks = calculateRanks x;
          yRanks = calculateRanks y
      in calculatePearsonCorrelation (map Fin xRanks) (map Fin yRanks))"

definition kendall_pair ::
  "jsnum list \<Rightarrow> jsnum list \<Rightarrow> nat \<Rightarrow> nat \<Rightarrow> nat \<times> nat \<Rightarrow> nat \<times> nat" where
  "kendall_pair x y i j cd =
     (case cd of (concordant, discordant) \<Rightarrow>
     (let xDiff = elem x j - elem x i;
          yDiff = elem y j - elem y i
      in if xDiff * yDiff > Fin 0 then (concordant + 1, discordant)
         else if xDiff * yDiff < Fin 0 then (concordant, discordant + 1)
         else (concordant, discordant)))"

definition kendall_counts :: "jsnum list \<Rightarrow> jsnum list \<Rightarrow> nat \<times> nat" where
  "kendall_counts x y =
     (let n = length x
      in fold (\<lambda>i cd. fold (kendall_pair x y i) [i + 1..<n] cd) [0..<n - 1] (0, 0))"

definition calculateKendallTau :: "jsnum list \<Rightarrow> jsnum list \<Rightarrow> CorrelationResult" where
  "calculateKendallTau x y =
     (let n = Fin (real (length x))
      in (case kendall_counts x y of (concordant, discordant) \<Rightarrow>
     (let tau = (Fin (real concordant) - Fin (real discordant)) / (n * (n - Fin 1) / Fin 2);
          var0 = (Fin 4 * n + Fin 10) / (Fin 9 * n * (n - Fin 1));
          z = tau / js_sqrt var0;
          pValue = Fin 2 * (Fin 1 - normalCDF \<bar>z\<bar>)
      in \<lparr>coefficient = tau, pValue = pValue, significant = (pValue < Fin 0.05)\<rparr>)))"


section \<open>Matrix inversion (correlationAnalysis.ts)\<close>

text \<open>
  The matrix is square: \<open>n\<close> rows of \<open>n\<close> numbers. Each row of the augmented matrix
  is a fresh array, so the row exchange moves whole rows and no two rows alias.
\<close>

type_synonym matrix = "jsnum list list"

definition augment :: "matrix \<Rightarrow> matrix" where
  "augment m =
     (let n = length m
      in map (\<lambda>i. m ! i @ map (\<lambda>j. if i = j then Fin 1 else Fin 0) [0..<n]) [0..<n])"

definition select_pivot :: "matrix \<Rightarrow> nat \<Rightarrow> nat \<Rightarrow> nat" where
  "select_pivot aug n i =
     fold (\<lambda>j maxRow. if \<bar>aug ! j ! i\<bar> > \<bar>aug ! maxRow ! i\<bar> then j else maxRow)
          [i + 1..<n] i"

definition swap_rows :: "matrix \<Rightarrow> nat \<Rightarrow> nat \<Rightarrow> matrix" where
  "swap_rows aug i maxRow = aug[i := aug ! maxRow, maxRow := aug ! i]"

definition scale_row :: "nat \<Rightarrow> nat \<Rightarrow> jsnum \<Rightarrow> jsnum list \<Rightarrow> jsnum list" where
  \<comment> \<open>\<open>for (j = i; j < 2 * n; j++) row[j] /= pivot\<close>\<close>
  "scale_row n i pivot row =
     map (\<lambda>j. if i \<le> j \<and> j < 2 * n then row ! j / pivot else row ! j) [0..<length row]"

definition eliminate_row :: "nat \<Rightarrow> nat \<Rightarrow> jsnum list \<Rightarrow> jsnum list \<Rightarrow> jsnum list" where
  \<comment> \<open>\<open>factor = row[i]; for (k = i; k < 2 * n; k++) row[k] -= factor * pivotRow[k]\<close>\<close>
  "eliminate_row n i pivotRow row =
     (let factor = row ! i
      in map (\<lambda>k. if i \<le> k \<and> k < 2 * n then row ! k - factor * pivotRow ! k else row ! k)
             [0..<length row])"

definition gauss_step :: "nat \<Rightarrow> nat \<Rightarrow> matrix \<Rightarrow> matrix" where
  "gauss_step n i aug =
     (let maxRow = select_pivot aug n i;
          aug = swap_rows aug i maxRow;
          pivot = aug ! i ! i;
          aug = aug[i := scale_row n i pivot (aug ! i)]
      in map (\<lambda>j. if j \<noteq> i \<and> j < n then eliminate_row n i (aug ! i) (aug ! j) else aug ! j)
             [0..<length aug])"

definition matrixInverse :: "matrix \<Rightarrow> matrix" where
  "matrixInverse m =
     (let n = length m;
          augmented = fold (gauss_step n) [0..<n] (augment m)
      in map (drop n) augmented)"

section \<open>Signal toolkit (advanced analysis)\<close>



text \<open>
  Phase-space reconstruction. \<open>dimension\<close> and \<open>delay\<close> are integers; an index outside
  the series reads \<open>undefined\<close>, which is \<open>None\<close> here.
\<close>

definition js_index :: "'a list \<Rightarrow> int \<Rightarrow> 'a option" where
  "js_index xs k = (if 0 \<le> k \<and> k < int (length xs) then Some (xs ! nat k) else None)"

definition reconstructPhaseSpace :: "'a list \<Rightarrow> int \<Rightarrow> int \<Rightarrow> 'a option list list" where
  "reconstructPhaseSpace timeSeries dimension delay =
     (let N = int (length timeSeries) - (dimension - 1) * delay
      in map (\<lambda>i. map (\<lambda>d. js_index timeSeries (int i + int d * delay)) [0..<nat dimension])
             [0..<nat N])"

section \<open>Reference notions of the specification\<close>

text \<open>
  Average rank for ties, in the specification's words: all equal values receive the
  mean of the (1-based) rank positions they jointly occupy in sorted order.
\<close>

definition rank_positions :: "real list \<Rightarrow> real \<Rightarrow> nat list" where
  "rank_positions values v = [p + 1. p \<leftarrow> [0..<length values], sort values ! p = v]"

definition average_rank :: "real list \<Rightarrow> real \<Rightarrow> real" where
  "average_rank values v =
     real (sum_list (rank_positions values v)) / real (length (rank_positions values v))"


text \<open>
  Concordant and discordant pairs, in the specification's words: the unordered pairs
  \<open>i < j\<close> of positions whose product \<open>(x[j] - x[i]) * (y[j] - y[i])\<close> is positive,
  respectively negative.
\<close>

definition pair_product :: "jsnum list \<Rightarrow> jsnum list \<Rightarrow> nat \<Rightarrow> nat \<Rightarrow> jsnum" where
  "pair_product x y i j = (elem x j - elem x i) * (elem y j - elem y i)"

definition concordant_pairs :: "jsnum list \<Rightarrow> jsnum list \<Rightarrow> (nat \<times> nat) set" where
  "concordant_pairs x y = {(i, j). i < j \<and> j < length x \<and> pair_product x y i j > Fin 0}"

definition discordant_pairs :: "jsnum list \<Rightarrow> jsnum list \<Rightarrow> (nat \<times> nat) set" where
  "discordant_pairs x y = {(i, j). i < j \<and> j < length x \<and> pair_product x y i j < Fin 0}"

text \<open>Auxiliary notions for the proofs: a value that is zero or \<open>NaN\<close>.\<close>

definition zero_or_nan :: "jsnum \<Rightarrow> bool" where
  "zero_or_nan v = (v = Fin 0 \<or> v = NaN)"


text \<open>
  A square matrix; the augmented matrix before elimination step \<open>i\<close>; and the pivot
  that step \<open>i\<close> divides by, read after the row exchange.
\<close>

definition square :: "matrix \<Rightarrow> bool" where
  "square m = (\<forall>row\<in>set m. length row = length m)"

definition gauss_state :: "matrix \<Rightarrow> nat \<Rightarrow> matrix" where
  "gauss_state m i = fold (gauss_step (length m)) [0..<i] (augment m)"

definition pivot_at :: "matrix \<Rightarrow> nat \<Rightarrow> jsnum" where
  "pivot_at m i =
     (let n = length m;
          aug = gauss_state m i;
          aug = swap_rows aug i (select_pivot aug n i)
      in aug ! i ! i)"

definition shaped :: "nat \<Rightarrow> matrix \<Rightarrow> bool" where
  "shaped n aug = (length aug = n \<and> (\<forall>r<n. length (aug ! r) = 2 * n))"

definition nf_from :: "nat \<Rightarrow> nat \<Rightarrow> matrix \<Rightarrow> bool" where
  "nf_from n c aug = (\<forall>r<n. \<forall>k. c \<le> k \<and> k < 2 * n \<longrightarrow> \<not> finite_num (aug ! r ! k))"






section \<open>Facts about numbers\<close>

lemma Fin_minus [simp]: "Fin a - Fin b = Fin (a - b)"
  by (simp add: minus_jsnum_def)

lemma pos_not_neg: "Fin 0 < v \<Longrightarrow> \<not> v < Fin 0"
  by (cases v) auto

lemma square_not_neg: "\<not> v * v < Fin 0"
  by (cases v) (auto simp: mult_less_0_iff)

lemma self_diff_square_not_pos: "\<not> Fin 0 < (v - v) * (v - v)"
  by (cases v) (auto simp: minus_jsnum_def)


lemma plus_NaN_right [simp]: "v + NaN = NaN"
  by (cases v) simp_all

lemma times_NaN_right [simp]: "v * NaN = NaN"
  by (cases v) simp_all

lemma divide_NaN_right [simp]: "v / NaN = NaN"
  by (cases v) simp_all

lemma minus_NaN [simp]: "v - NaN = NaN" "NaN - v = NaN"
  by (simp_all add: minus_jsnum_def)

lemma less_NaN_right [simp]: "\<not> v < NaN"
  by (cases v) simp_all




lemma divide_zero_or_nan: "zero_or_nan d \<Longrightarrow> \<not> finite_num (v / d)"
  by (cases v) (auto simp: zero_or_nan_def split: if_splits)


lemma nf_sub_mul: "\<not> finite_num w \<Longrightarrow> \<not> finite_num (v - f * w)"
  by (cases f; cases w; cases v) (auto simp: minus_jsnum_def split: if_splits)

lemma nf_div_nf: "\<not> finite_num v \<Longrightarrow> \<not> finite_num p \<Longrightarrow> \<not> finite_num (v / p)"
  by (cases v; cases p) auto

lemma nf_div_zero: "\<not> finite_num (v / Fin 0)"
  by (rule divide_zero_or_nan) (simp add: zero_or_nan_def)


section \<open>Phase-space reconstruction\<close>

lemma length_reconstructPhaseSpace:
  "length (reconstructPhaseSpace ts d \<tau>) = nat (int (length ts) - (d - 1) * \<tau>)"
  by (simp add: reconstructPhaseSpace_def Let_def)

lemma nth_reconstructPhaseSpace:
  "i < nat (int (length ts) - (d - 1) * \<tau>) \<Longrightarrow>
   reconstructPhaseSpace ts d \<tau> ! i = map (\<lambda>k. js_index ts (int i + int k * \<tau>)) [0..<nat d]"
  by (simp add: reconstructPhaseSpace_def Let_def)

lemma js_index_in_range:
  assumes "i < nat (int (length ts) - (d - 1) * \<tau>)" "k < nat d" "0 \<le> \<tau>"
  shows "js_index ts (int i + int k * \<tau>) = Some (ts ! (i + k * nat \<tau>))"
proof -
  have k: "int k \<le> d - 1" using assms(2) by linarith
  have "int k * \<tau> \<le> (d - 1) * \<tau>" using k assms(3) by (rule mult_right_mono)
  moreover have "int i < int (length ts) - (d - 1) * \<tau>" using assms(1) by linarith
  ultimately have lt: "int i + int k * \<tau> < int (length ts)" by linarith
  have ge: "0 \<le> int i + int k * \<tau>" using assms(3) by simp
  have "nat (int i + int k * \<tau>) = i + k * nat \<tau>"
    using assms(3) by (simp add: nat_add_distrib nat_mult_distrib)
  then show ?thesis using lt ge by (simp add: js_index_def)
qed

text \<open>
  C7 (as the code has it). With \<open>N = len(series) - (d - 1) * \<tau>\<close>, \<open>reconstructPhaseSpace\<close>
  returns \<open>N\<close> vectors when \<open>N\<close> is positive; vector \<open>i\<close> has \<open>d\<close> components, the
  \<open>k\<close>-th being \<open>series[i + k * \<tau>]\<close>, which for a non-negative delay is an element of
  the series. When \<open>N\<close> is zero or negative it raises nothing and returns the empty list.
\<close>

theorem reconstructPhaseSpace_embedding:
  "length (reconstructPhaseSpace ts d \<tau>) = nat (int (length ts) - (d - 1) * \<tau>) \<and>
   (\<forall>i < nat (int (length ts) - (d - 1) * \<tau>).
      length (reconstructPhaseSpace ts d \<tau> ! i) = nat d \<and>
      (\<forall>k < nat d.
         reconstructPhaseSpace ts d \<tau> ! i ! k = js_index ts (int i + int k * \<tau>) \<and>
         (0 \<le> \<tau> \<longrightarrow> reconstructPhaseSpace ts d \<tau> ! i ! k = Some (ts ! (i + k * nat \<tau>))))) \<and>
   (int (length ts) - (d - 1) * \<tau> \<le> 0 \<longrightarrow> reconstructPhaseSpace ts d \<tau> = [])"
proof (intro conjI allI impI)
  show "length (reconstructPhaseSpace ts d \<tau>) = nat (int (length ts) - (d - 1) * \<tau>)"
    by (rule length_reconstructPhaseSpace)
next
  fix i assume "i < nat (int (length ts) - (d - 1) * \<tau>)"
  then show "length (reconstructPhaseSpace ts d \<tau> ! i) = nat d"
    by (simp add: nth_reconstructPhaseSpace)
next
  fix i k assume i: "i < nat (int (length ts) - (d - 1) * \<tau>)" and k: "k < nat d"
  then show a: "reconstructPhaseSpace ts d \<tau> ! i ! k = js_index ts (int i + int k * \<tau>)"
    by (simp add: nth_reconstructPhaseSpace)
  assume "0 \<le> \<tau>"
  then show "reconstructPhaseSpace ts d \<tau> ! i ! k = Some (ts ! (i + k * nat \<tau>))"
    using a js_index_in_range [OF i k] by simp
next
  assume "int (length ts) - (d - 1) * \<tau> \<le> 0"
  then show "reconstructPhaseSpace ts d \<tau> = []"
    by (simp add: reconstructPhaseSpace_def Let_def)
qed

text \<open>
  C7, witness: a series of length 10 with \<open>d = 3\<close>, \<open>\<tau> = 2\<close> gives 6 vectors of length 3,
  the last one ending in the last sample; a series of length 3 gives none.
\<close>

theorem reconstructPhaseSpace_embedding_witness:
  "length (reconstructPhaseSpace [10, 11, 12, 13, 14, 15, 16, 17, 18, 19 :: int] 3 2) = 6 \<and>
   length (reconstructPhaseSpace [10, 11, 12, 13, 14, 15, 16, 17, 18, 19 :: int] 3 2 ! 5) = 3 \<and>
   reconstructPhaseSpace [10, 11, 12, 13, 14, 15, 16, 17, 18, 19 :: int] 3 2 ! 5 ! 2 = Some 19 \<and>
   reconstructPhaseSpace [10, 11, 12 :: int] 3 2 = []"
proof -
  let ?s = "[10, 11, 12, 13, 14, 15, 16, 17, 18, 19 :: int]"
  note T = reconstructPhaseSpace_embedding [of ?s 3 2]
  have a: "length (reconstructPhaseSpace ?s 3 2) = 6"
    using T [THEN conjunct1] by simp
  note T5 = T [THEN conjunct2, THEN conjunct1, THEN spec, of 5]
  have b: "length (reconstructPhaseSpace ?s 3 2 ! 5) = 3"
    using T5 by simp
  have "5 < nat (int (length ?s) - (3 - 1) * 2)"
    by simp
  note T52 = T5 [THEN mp, OF this, THEN conjunct2, THEN spec, of 2]
  have c: "reconstructPhaseSpace ?s 3 2 ! 5 ! 2 = Some 19"
    using T52 by (simp add: js_index_def)
  have d: "reconstructPhaseSpace [10, 11, 12 :: int] 3 2 = []"
    using reconstructPhaseSpace_embedding [of "[10, 11, 12 :: int]" 3 2, THEN conjunct2, THEN conjunct2]
    by simp
  show ?thesis using a b c d by simp
qed

text \<open>
  C7, counterexample to the claim as stated: for a series of length 3 with \<open>d = 3\<close>,
  \<open>\<tau> = 2\<close> the range is \<open>3 - 4 = -1\<close>, and the call returns the empty list instead of
  failing.
\<close>

theorem reconstructPhaseSpace_empty_range_counterexample:
  "reconstructPhaseSpace [1, 2, 3 :: int] 3 2 = []"
  by (simp add: reconstructPhaseSpace_def)

section \<open>Rank transform\<close>

lemma indexOf_first:
  "v \<in> set xs \<Longrightarrow>
   \<exists>k. indexOf xs v = int k \<and> k < length xs \<and> xs ! k = v \<and> (\<forall>j<k. xs ! j \<noteq> v)"
proof (induction xs)
  case Nil
  then show ?case by simp
next
  case (Cons w ws)
  show ?case
  proof (cases "w = v")
    case True
    then show ?thesis by simp
  next
    case False
    with Cons.prems have "v \<in> set ws" by simp
    from Cons.IH [OF this] obtain k where
      k: "indexOf ws v = int k" "k < length ws" "ws ! k = v" "\<forall>j<k. ws ! j \<noteq> v"
      by blast
    have "indexOf (w # ws) v = int (Suc k)"
      using False k(1) by (simp add: Let_def)
    moreover have "\<forall>j<Suc k. (w # ws) ! j \<noteq> v"
      using False k(4) by (auto simp: less_Suc_eq_0_disj)
    ultimately show ?thesis using k(2,3) by (intro exI [of _ "Suc k"]) simp
  qed
qed

lemma indexOf_sorted_count:
  "sorted xs \<Longrightarrow> v \<in> set xs \<Longrightarrow> indexOf xs v = int (length (filter (\<lambda>w. w < v) xs))"
proof (induction xs)
  case Nil
  then show ?case by simp
next
  case (Cons w ws)
  show ?case
  proof (cases "w = v")
    case True
    with Cons.prems(1) have "\<forall>u\<in>set ws. \<not> u < v" by auto
    then have "filter (\<lambda>w. w < v) ws = []" by (simp add: filter_empty_conv)
    with True show ?thesis by simp
  next
    case False
    with Cons.prems have mem: "v \<in> set ws" and "w \<le> v" by auto
    with False have "w < v" by simp
    moreover have "indexOf ws v = int (length (filter (\<lambda>w. w < v) ws))"
      using Cons.IH Cons.prems(1) mem by simp
    ultimately show ?thesis using False by (simp add: Let_def)
  qed
qed

lemma length_filter_sort:
  "length (filter P (sort xs)) = length (filter P (xs :: real list))"
  by (simp add: filter_sort)

lemma rank_first_occurrence:
  assumes "v \<in> set values"
  shows "indexOf (sort values) v + 1 = int (Min (set (rank_positions values v)))"
proof -
  from assms have "v \<in> set (sort values)" by simp
  from indexOf_first [OF this] obtain k where
    k: "indexOf (sort values) v = int k" "k < length (sort values)" "sort values ! k = v"
       "\<forall>j<k. sort values ! j \<noteq> v"
    by blast
  have mem: "Suc k \<in> set (rank_positions values v)"
    using k(2,3) by (auto simp: rank_positions_def)
  have low: "\<forall>q\<in>set (rank_positions values v). Suc k \<le> q"
  proof
    fix q assume "q \<in> set (rank_positions values v)"
    then obtain p where p: "q = Suc p" "sort values ! p = v"
      by (auto simp: rank_positions_def)
    with k(4) have "\<not> p < k" by blast
    with p(1) show "Suc k \<le> q" by simp
  qed
  have "Min (set (rank_positions values v)) = Suc k"
    using mem low by (intro Min_eqI) auto
  with k(1) show ?thesis by simp
qed

text \<open>
  C3 (as the code has it). The rank transform used by \<open>calculateSpearmanCorrelation\<close>
  gives every value the rank of its first occurrence in sorted order: the smallest of
  the rank positions its tie group occupies, which is one more than the number of
  strictly smaller values.
\<close>

theorem calculateRanks_first_occurrence:
  "i < length values \<Longrightarrow>
   calculateRanks values ! i = real (Min (set (rank_positions values (values ! i)))) \<and>
   calculateRanks values ! i = real (length (filter (\<lambda>w. w < values ! i) values)) + 1"
proof -
  assume i: "i < length values"
  then have mem: "values ! i \<in> set values" by simp
  have r: "calculateRanks values ! i = real_of_int (indexOf (sort values) (values ! i) + 1)"
    using i by (simp add: calculateRanks_def Let_def)
  have a: "calculateRanks values ! i = real (Min (set (rank_positions values (values ! i))))"
    using r rank_first_occurrence [OF mem] by simp
  have "indexOf (sort values) (values ! i) = int (length (filter (\<lambda>w. w < values ! i) values))"
    using indexOf_sorted_count [of "sort values" "values ! i"] mem
    by (simp add: length_filter_sort)
  with r have b: "calculateRanks values ! i = real (length (filter (\<lambda>w. w < values ! i) values)) + 1"
    by simp
  from a b show ?thesis by simp
qed

text \<open>
  C3, witness: in \<open>[1, 2, 2, 3]\<close> the value at index 1 gets rank 2, the smaller of the
  positions 2 and 3 that the two equal values occupy.
\<close>

theorem calculateRanks_first_occurrence_witness:
  "(1::nat) < length [1, 2, 2, 3 :: real] \<and>
   calculateRanks [1, 2, 2, 3] ! 1 = real (Min (set (rank_positions [1, 2, 2, 3] 2))) \<and>
   calculateRanks [1, 2, 2, 3] ! 1 = 2"
proof -
  have h: "(1::nat) < length [1, 2, 2, 3 :: real]" by simp
  show ?thesis using h calculateRanks_first_occurrence [OF h] by simp
qed

text \<open>
  C3, counterexample to the claim as stated: on \<open>[1, 2, 2, 3]\<close> the code ranks the tied
  values 2 and 2, where the average of their positions is 2.5.
\<close>

theorem calculateRanks_average_counterexample:
  "calculateRanks [1, 2, 2, 3] = [1, 2, 2, 4] \<and>
   map (average_rank [1, 2, 2, 3]) [1, 2, 2, 3] = [1, 5 / 2, 5 / 2, 4]"
  by (simp add: calculateRanks_def average_rank_def rank_positions_def upt_rec)

section \<open>Runge-Kutta integration\<close>





section \<open>Kendall's tau\<close>

lemma kendall_pair_eq:
  "kendall_pair x y i j (c, d) =
     (c + (if Fin 0 < pair_product x y i j then 1 else 0),
      d + (if pair_product x y i j < Fin 0 then 1 else 0))"
  by (auto simp: kendall_pair_def pair_product_def Let_def dest: pos_not_neg)

lemma kendall_inner:
  "fold (kendall_pair x y i) js (c, d) =
     (c + length (filter (\<lambda>j. Fin 0 < pair_product x y i j) js),
      d + length (filter (\<lambda>j. pair_product x y i j < Fin 0) js))"
  by (induction js arbitrary: c d) (simp_all add: kendall_pair_eq)

lemma kendall_outer:
  "fold (\<lambda>i cd. fold (kendall_pair x y i) [i + 1..<n] cd) is (c, d) =
     (c + (\<Sum>i\<leftarrow>is. length (filter (\<lambda>j. Fin 0 < pair_product x y i j) [i + 1..<n])),
      d + (\<Sum>i\<leftarrow>is. length (filter (\<lambda>j. pair_product x y i j < Fin 0) [i + 1..<n])))"
  by (induction "is" arbitrary: c d) (simp_all add: kendall_inner)

lemma card_pairs:
  "card {(i, j). i < j \<and> j < n \<and> P i j} =
     (\<Sum>i\<leftarrow>[0..<n - 1]. length (filter (P i) [i + 1..<n]))"
proof -
  have eq: "{(i, j). i < j \<and> j < n \<and> P i j} =
        (SIGMA i:{0..<n - 1}. {j \<in> {i + 1..<n}. P i j})"
    by auto
  have "card (SIGMA i:{0..<n - 1}. {j \<in> {i + 1..<n}. P i j}) =
        (\<Sum>i\<in>{0..<n - 1}. card {j \<in> {i + 1..<n}. P i j})"
    by (rule card_SigmaI) auto
  also have "\<dots> = (\<Sum>i\<in>{0..<n - 1}. length (filter (P i) [i + 1..<n]))"
  proof (rule sum.cong)
    fix i
    have "length (filter (P i) [i + 1..<n]) = card ({j. P i j} \<inter> set [i + 1..<n])"
      by (rule distinct_length_filter) simp
    also have "{j. P i j} \<inter> set [i + 1..<n] = {j \<in> {i + 1..<n}. P i j}"
      by auto
    finally show "card {j \<in> {i + 1..<n}. P i j} = length (filter (P i) [i + 1..<n])"
      by simp
  qed simp
  also have "\<dots> = (\<Sum>i\<leftarrow>[0..<n - 1]. length (filter (P i) [i + 1..<n]))"
    by (simp add: interv_sum_list_conv_sum_set_nat)
  finally show ?thesis using eq by simp
qed

lemma kendall_counts_card:
  "kendall_counts x y = (card (concordant_pairs x y), card (discordant_pairs x y))"
  using kendall_outer [of x y "length x" "[0..<length x - 1]" 0 0]
  by (simp add: kendall_counts_def Let_def concordant_pairs_def discordant_pairs_def card_pairs)

lemma card_all_pairs: "2 * card {(i, j). i < j \<and> j < (n::nat)} = n * (n - 1)"
proof -
  have f: "finite {(i, j). i < j \<and> j < n}"
    by (rule finite_subset [of _ "{0..<n} \<times> {0..<n}"]) auto
  have g: "finite {(i, j). j < i \<and> i < n}"
    by (rule finite_subset [of _ "{0..<n} \<times> {0..<n}"]) auto
  have sw: "{(i, j). j < i \<and> i < n} = (\<lambda>(i, j). (j, i)) ` {(i, j). i < j \<and> j < n}"
    by (auto simp: image_iff)
  have "card {(i, j). j < i \<and> i < n} = card {(i, j). i < j \<and> j < n}"
    unfolding sw by (rule card_image) (auto simp: inj_on_def)
  moreover have "card ({(i, j). i < j \<and> j < n} \<union> {(i, j). j < i \<and> i < n}) =
      card {(i, j). i < j \<and> j < n} + card {(i, j). j < i \<and> i < n}"
    by (rule card_Un_disjoint [OF f g]) auto
  moreover have "{(i, j). i < j \<and> j < n} \<union> {(i, j). j < i \<and> i < n} =
      {0..<n} \<times> {0..<n} - (\<lambda>i. (i, i)) ` {0..<n}"
    by auto
  moreover have "card ({0..<n} \<times> {0..<n} - (\<lambda>i. (i, i)) ` {0..<n}) =
      card ({0..<n} \<times> {0..<n}) - card ((\<lambda>i. (i, i)) ` {0..<n})"
    by (rule card_Diff_subset) auto
  moreover have "card ((\<lambda>i. (i, i)) ` {0..<n}) = n"
    by (simp add: card_image inj_on_def)
  ultimately have "2 * card {(i, j). i < j \<and> j < n} = n * n - n"
    by simp
  then show ?thesis by (simp add: diff_mult_distrib2)
qed


lemma finite_all_pairs: "finite {(i, j). i < j \<and> j < (n::nat)}"
  by (rule finite_subset [of _ "{0..<n} \<times> {0..<n}"]) auto

lemma concordant_subset: "concordant_pairs x y \<subseteq> {(i, j). i < j \<and> j < length x}"
  by (auto simp: concordant_pairs_def)




lemma kendall_coefficient:
  "coefficient (calculateKendallTau x y) =
     (Fin (real (card (concordant_pairs x y))) - Fin (real (card (discordant_pairs x y)))) /
     (Fin (real (length x)) * (Fin (real (length x)) - Fin 1) / Fin 2)"
  by (simp add: calculateKendallTau_def kendall_counts_card Let_def)

lemma kendall_coefficient_fin:
  assumes "2 \<le> length x"
  shows "coefficient (calculateKendallTau x y) =
     Fin ((real (card (concordant_pairs x y)) - real (card (discordant_pairs x y))) /
          (real (length x) * (real (length x) - 1) / 2))"
proof -
  have "real (length x) * (real (length x) - 1) \<noteq> 0" using assms by auto
  then show ?thesis by (simp add: kendall_coefficient)
qed


lemma pairs_denominator:
  assumes "2 \<le> (n::nat)"
  shows "real n * (real n - 1) = real (n * (n - 1))" and "0 < real (n * (n - 1))"
proof -
  have "real (n - 1) = real n - 1" using assms by simp
  then show "real n * (real n - 1) = real (n * (n - 1))" by simp
  have "0 < n * (n - 1)" using assms by simp
  then show "0 < real (n * (n - 1))" by (simp only: of_nat_0_less_iff)
qed



text \<open>
  C10. The two counters of \<open>calculateKendallTau\<close> are the numbers of pairs with positive
  and with negative product; a pair whose product is zero enters neither, while the
  denominator remains \<open>n (n - 1) / 2\<close>. Hence for every \<open>x\<close> with a repeated value the
  coefficient of \<open>x\<close> against itself is strictly below 1.
\<close>

theorem calculateKendallTau_ties:
  "kendall_counts x y = (card (concordant_pairs x y), card (discordant_pairs x y)) \<and>
   (\<forall>i j. pair_product x y i j = Fin 0 \<longrightarrow>
      (i, j) \<notin> concordant_pairs x y \<and> (i, j) \<notin> discordant_pairs x y) \<and>
   coefficient (calculateKendallTau x y) =
     (Fin (real (card (concordant_pairs x y))) - Fin (real (card (discordant_pairs x y)))) /
     (Fin (real (length x)) * (Fin (real (length x)) - Fin 1) / Fin 2) \<and>
   (\<not> distinct x \<longrightarrow> coefficient (calculateKendallTau x x) < Fin 1)"
proof -
  have ties: "\<forall>i j. pair_product x y i j = Fin 0 \<longrightarrow>
      (i, j) \<notin> concordant_pairs x y \<and> (i, j) \<notin> discordant_pairs x y"
    by (simp add: concordant_pairs_def discordant_pairs_def)
  have rep: "coefficient (calculateKendallTau x x) < Fin 1" if nd: "\<not> distinct x"
  proof -
    from nd obtain a b where ab: "a < length x" "b < length x" "a \<noteq> b" "x ! a = x ! b"
      unfolding distinct_conv_nth by blast
    define i where "i = min a b"
    define j where "j = max a b"
    have ij: "i < j" "j < length x" "x ! i = x ! j"
      using ab by (auto simp: i_def j_def min_def max_def)
    then have n2: "2 \<le> length x" by simp
    define m where "m = length x * (length x - 1)"
    have den: "real (length x) * (real (length x) - 1) = real m" "0 < real m"
      using pairs_denominator [OF n2] by (simp_all only: m_def)
    have "(i, j) \<notin> concordant_pairs x x"
      using ij by (simp add: concordant_pairs_def pair_product_def elem_def self_diff_square_not_pos)
    moreover have "(i, j) \<in> {(i, j). i < j \<and> j < length x}" using ij by simp
    ultimately have "concordant_pairs x x \<subset> {(i, j). i < j \<and> j < length x}"
      using concordant_subset [of x x] by blast
    then have "card (concordant_pairs x x) < card {(i, j). i < j \<and> j < length x}"
      by (rule psubset_card_mono [OF finite_all_pairs])
    then have "2 * card (concordant_pairs x x) < m"
      using card_all_pairs [of "length x"] by (simp add: m_def)
    then have "real (2 * card (concordant_pairs x x)) < real m"
      by (simp only: of_nat_less_iff)
    then have lt: "real (card (concordant_pairs x x)) / (real m / 2) < 1"
      using den(2) by (simp add: field_simps)
    have "discordant_pairs x x = {}"
      by (auto simp: discordant_pairs_def pair_product_def square_not_neg)
    then have d: "real (card (discordant_pairs x x)) = 0" by simp
    have "coefficient (calculateKendallTau x x) =
        Fin ((real (card (concordant_pairs x x)) - real (card (discordant_pairs x x))) / (real m / 2))"
      using kendall_coefficient_fin [OF n2, of x] by (simp only: den(1))
    then show ?thesis
      unfolding d using lt by simp
  qed
  show ?thesis
    using ties rep kendall_counts_card [of x y] kendall_coefficient [of x y] by blast
qed

text \<open>C10, witness: \<open>x = [1, 1, 2]\<close> against itself.\<close>

theorem calculateKendallTau_ties_witness:
  "\<not> distinct [Fin 1, Fin 1, Fin 2] \<and>
   coefficient (calculateKendallTau [Fin 1, Fin 1, Fin 2] [Fin 1, Fin 1, Fin 2]) < Fin 1"
proof -
  have h: "\<not> distinct [Fin 1, Fin 1, Fin 2]" by simp
  note T = calculateKendallTau_ties [of "[Fin 1, Fin 1, Fin 2]" "[Fin 1, Fin 1, Fin 2]"]
  show ?thesis
    using h T [THEN conjunct2, THEN conjunct2, THEN conjunct2, THEN mp, OF h] by (intro conjI)
qed

section \<open>Pearson correlation\<close>

lemma calculateTDistributionPValue_NaN [simp]: "calculateTDistributionPValue NaN df = NaN"
  by (simp add: calculateTDistributionPValue_def incompleteBeta_def strict_eq_def Let_def)









lemma one_times [simp]: "Fin 1 * v = v"
  by (cases v) simp_all

lemma t_versus_F_pvalue:
  "calculateTDistributionPValue t df = Fin 1 - calculateFDistributionPValue (t * t) (Fin 1) df"
  by (simp add: calculateTDistributionPValue_def calculateFDistributionPValue_def Let_def)

text \<open>
  C2, the code at the specification's test vector. The inputs \<open>x = [1, 2, 3, 4, 5]\<close>,
  \<open>y = [2, 4, 6, 8, 10]\<close> are perfectly linear, so \<open>r = 1\<close>. The code has no branch for
  \<open>|r| = 1\<close>: it evaluates \<open>t = r * sqrt((n - 2) / (1 - r * r))\<close> with a zero denominator,
  obtains \<open>Infinity\<close>, hence \<open>x = df / (df + t * t) = 0\<close> and \<open>incompleteBeta\<close> returns 0
  at once; the p-value is \<open>1 - 0 = 1\<close> and the result is reported as not significant.
  On the same statistic (\<open>F = t * t\<close>, one numerator degree of freedom) the sibling
  \<open>calculateFDistributionPValue\<close> returns 0.
\<close>

theorem calculatePearsonCorrelation_perfect_linear:
  "calculatePearsonCorrelation [Fin 1, Fin 2, Fin 3, Fin 4, Fin 5] [Fin 2, Fin 4, Fin 6, Fin 8, Fin 10] =
     Inr \<lparr>coefficient = Fin 1, pValue = Fin 1, significant = False\<rparr> \<and>
   calculateTDistributionPValue PInf (Fin 3) = Fin 1 \<and>
   calculateFDistributionPValue (PInf * PInf) (Fin 1) (Fin 3) = Fin 0"
  by (simp add: calculatePearsonCorrelation_def pearson_sums_def elem_def upt_rec Let_def
      calculateTDistributionPValue_def calculateFDistributionPValue_def incompleteBeta_def
      strict_eq_def)







section \<open>Matrix inversion\<close>

lemma shaped_augment: "square m \<Longrightarrow> shaped (length m) (augment m)"
  by (simp add: square_def shaped_def augment_def Let_def)

lemma fold_choice_mem:
  "fold (\<lambda>j m. if P j m then j else m) js i \<in> insert i (set js)"
  by (induction js arbitrary: i) (auto split: if_splits)

lemma select_pivot_less: "i < n \<Longrightarrow> select_pivot aug n i < n"
  using fold_choice_mem [of "\<lambda>j maxRow. \<bar>aug ! j ! i\<bar> > \<bar>aug ! maxRow ! i\<bar>" "[i + 1..<n]" i]
  by (auto simp: select_pivot_def)

lemma swap_rows_nth:
  "i < length aug \<Longrightarrow> p < length aug \<Longrightarrow> r < length aug \<Longrightarrow>
   swap_rows aug i p ! r = (if r = p then aug ! i else if r = i then aug ! p else aug ! r)"
  by (simp add: swap_rows_def nth_list_update)

lemma shaped_swap:
  "shaped n aug \<Longrightarrow> i < n \<Longrightarrow> p < n \<Longrightarrow> shaped n (swap_rows aug i p)"
  by (simp add: shaped_def swap_rows_def nth_list_update)

lemma nf_from_swap:
  "shaped n aug \<Longrightarrow> i < n \<Longrightarrow> p < n \<Longrightarrow> nf_from n c aug \<Longrightarrow> nf_from n c (swap_rows aug i p)"
  by (simp add: shaped_def nf_from_def swap_rows_nth)

lemma gauss_step_nth:
  assumes "shaped n aug" "i < n" "r < n" "k < 2 * n"
  shows "gauss_step n i aug ! r ! k =
     (let a = swap_rows aug i (select_pivot aug n i); pivot = a ! i ! i
      in if r = i then (if i \<le> k then a ! i ! k / pivot else a ! i ! k)
         else (if i \<le> k then a ! r ! k - a ! r ! i * (a ! i ! k / pivot) else a ! r ! k))"
proof -
  define a where "a = swap_rows aug i (select_pivot aug n i)"
  have sa: "shaped n a"
    unfolding a_def using assms(1,2) select_pivot_less [OF assms(2)] by (rule shaped_swap)
  then have la: "length a = n" and lr: "\<And>q. q < n \<Longrightarrow> length (a ! q) = 2 * n"
    by (simp_all add: shaped_def)
  have ik: "i < 2 * n" using assms(2) by simp
  show ?thesis
    using assms(2-4) ik la lr [of i] lr [of r]
    by (simp add: gauss_step_def Let_def a_def [symmetric] scale_row_def eliminate_row_def)
qed

lemma shaped_gauss_step:
  assumes "shaped n aug" "i < n"
  shows "shaped n (gauss_step n i aug)"
proof -
  define a where "a = swap_rows aug i (select_pivot aug n i)"
  have sa: "shaped n a"
    unfolding a_def using assms select_pivot_less [OF assms(2)] by (rule shaped_swap)
  then have la: "length a = n" and lr: "\<And>q. q < n \<Longrightarrow> length (a ! q) = 2 * n"
    by (simp_all add: shaped_def)
  show ?thesis
    using assms(2) la lr
    by (simp add: shaped_def gauss_step_def Let_def a_def [symmetric] scale_row_def
        eliminate_row_def nth_list_update)
qed

lemma gauss_step_zero_pivot:
  assumes "shaped n aug" "i < n"
    and "swap_rows aug i (select_pivot aug n i) ! i ! i = Fin 0"
  shows "nf_from n i (gauss_step n i aug)"
  unfolding nf_from_def
proof (intro allI impI)
  fix r k assume r: "r < n" and k: "i \<le> k \<and> k < 2 * n"
  show "\<not> finite_num (gauss_step n i aug ! r ! k)"
    using k by (simp add: gauss_step_nth [OF assms(1,2) r] assms(3) Let_def nf_div_zero nf_sub_mul)
qed

lemma gauss_step_keeps_nonfinite:
  assumes "shaped n aug" "i < n" "c \<le> i" "nf_from n c aug"
  shows "nf_from n c (gauss_step n i aug)"
  unfolding nf_from_def
proof (intro allI impI)
  fix r k assume r: "r < n" and k: "c \<le> k \<and> k < 2 * n"
  define a where "a = swap_rows aug i (select_pivot aug n i)"
  have "nf_from n c a"
    unfolding a_def using assms(1,2) select_pivot_less [OF assms(2)] assms(4) by (rule nf_from_swap)
  then have nf: "\<And>q j. q < n \<Longrightarrow> c \<le> j \<Longrightarrow> j < 2 * n \<Longrightarrow> \<not> finite_num (a ! q ! j)"
    by (simp add: nf_from_def)
  have pv: "\<not> finite_num (a ! i ! i)"
    using nf [of i i] assms(2,3) by simp
  have q: "\<not> finite_num (a ! i ! k / (a ! i ! i))" if "i \<le> k"
    using nf [of i k] assms(2) k pv by (simp add: nf_div_nf)
  show "\<not> finite_num (gauss_step n i aug ! r ! k)"
    using k r nf [of r k] nf [of i k] assms(2) q
    by (simp add: gauss_step_nth [OF assms(1,2) r] a_def [symmetric] Let_def nf_sub_mul)
qed

lemma shaped_fold:
  "shaped n aug \<Longrightarrow> \<forall>i\<in>set js. i < n \<Longrightarrow> shaped n (fold (gauss_step n) js aug)"
  by (induction js arbitrary: aug) (simp_all add: shaped_gauss_step)

lemma nf_from_fold:
  "shaped n aug \<Longrightarrow> nf_from n c aug \<Longrightarrow> \<forall>i\<in>set js. c \<le> i \<and> i < n \<Longrightarrow>
   nf_from n c (fold (gauss_step n) js aug)"
  by (induction js arbitrary: aug) (simp_all add: shaped_gauss_step gauss_step_keeps_nonfinite)

lemma shaped_gauss_state: "square m \<Longrightarrow> i \<le> length m \<Longrightarrow> shaped (length m) (gauss_state m i)"
  unfolding gauss_state_def by (rule shaped_fold [OF shaped_augment]) auto

lemma matrixInverse_gauss_state:
  "matrixInverse m = map (drop (length m)) (gauss_state m (length m))"
  by (simp add: matrixInverse_def gauss_state_def Let_def)

lemma matrixInverse_shape:
  assumes "square m"
  shows "length (matrixInverse m) = length m"
    and "\<forall>row\<in>set (matrixInverse m). length row = length m"
proof -
  have sh: "shaped (length m) (gauss_state m (length m))"
    using assms by (simp add: shaped_gauss_state)
  then show "length (matrixInverse m) = length m"
    by (simp add: matrixInverse_gauss_state shaped_def)
  show "\<forall>row\<in>set (matrixInverse m). length row = length m"
    using sh by (auto simp: matrixInverse_gauss_state shaped_def in_set_conv_nth)
qed

lemma matrixInverse_zero_pivot:
  assumes "square m" "i < length m" "pivot_at m i = Fin 0"
  shows "\<forall>row\<in>set (matrixInverse m). \<forall>v\<in>set row. \<not> finite_num v"
proof -
  let ?n = "length m"
  have sh: "shaped ?n (gauss_state m i)"
    using assms(1,2) by (simp add: shaped_gauss_state)
  have pv: "swap_rows (gauss_state m i) i (select_pivot (gauss_state m i) ?n i) ! i ! i = Fin 0"
    using assms(3) by (simp add: pivot_at_def Let_def)
  have "[0..<i + (?n - i)] = [0..<i] @ [i..<i + (?n - i)]"
    by (rule upt_add_eq_append) simp
  then have split: "[0..<?n] = [0..<i] @ i # [Suc i..<?n]"
    using assms(2) by (simp add: upt_conv_Cons)
  have st: "gauss_state m ?n =
      fold (gauss_step ?n) [Suc i..<?n] (gauss_step ?n i (gauss_state m i))"
    unfolding gauss_state_def by (subst split) simp
  have "nf_from ?n i (gauss_step ?n i (gauss_state m i))"
    using sh assms(2) pv by (rule gauss_step_zero_pivot)
  then have nf: "nf_from ?n i (gauss_state m ?n)"
    unfolding st using shaped_gauss_step [OF sh assms(2)] by (intro nf_from_fold) auto
  have shn: "shaped ?n (gauss_state m ?n)"
    using assms(1) by (simp add: shaped_gauss_state)
  show ?thesis
  proof (intro ballI)
    fix row v assume "row \<in> set (matrixInverse m)" and v: "v \<in> set row"
    then obtain r where r: "r < ?n" "row = drop ?n (gauss_state m ?n ! r)"
      using shn by (auto simp: matrixInverse_gauss_state shaped_def in_set_conv_nth)
    have len: "length (gauss_state m ?n ! r) = 2 * ?n"
      using shn r(1) by (simp add: shaped_def)
    from v r(2) obtain k where k: "k < ?n" "v = gauss_state m ?n ! r ! (?n + k)"
      using len by (auto simp: in_set_conv_nth)
    show "\<not> finite_num v"
      using nf r(1) k assms(2) by (simp add: nf_from_def)
  qed
qed


text \<open>
  C1 (as the code has it). \<open>matrixInverse\<close> has no tolerance test and raises nothing: for
  every square matrix it returns \<open>n\<close> rows of \<open>n\<close> entries, and when the pivot of some
  step is zero it divides by it, after which every entry of the returned matrix is
  \<open>Infinity\<close>, \<open>-Infinity\<close> or \<open>NaN\<close>.
\<close>

theorem matrixInverse_no_singularity_check:
  assumes "square m"
  shows "length (matrixInverse m) = length m \<and>
         (\<forall>row\<in>set (matrixInverse m). length row = length m) \<and>
         (\<forall>i<length m. pivot_at m i = Fin 0 \<longrightarrow>
            (\<forall>row\<in>set (matrixInverse m). \<forall>v\<in>set row. \<not> finite_num v))"
proof (intro conjI allI impI)
  show "length (matrixInverse m) = length m"
    by (rule matrixInverse_shape(1) [OF assms])
  show "\<forall>row\<in>set (matrixInverse m). length row = length m"
    by (rule matrixInverse_shape(2) [OF assms])
  show "\<forall>row\<in>set (matrixInverse m). \<forall>v\<in>set row. \<not> finite_num v"
    if "i < length m" "pivot_at m i = Fin 0" for i
    using assms that by (rule matrixInverse_zero_pivot)
qed

lemma gauss_state_singular_example:
  "gauss_state [[Fin 1, Fin 2], [Fin 2, Fin 4]] (Suc 0) = [[Fin 1, Fin 2, Fin 0, Fin (1/2)], [Fin 0, Fin 0, Fin 1, Fin (- (1/2))]]"
  by (simp add: gauss_state_def augment_def gauss_step_def select_pivot_def
      swap_rows_def scale_row_def eliminate_row_def upt_conv_Cons minus_jsnum_def Let_def)

lemma pivot_at_singular_example: "pivot_at [[Fin 1, Fin 2], [Fin 2, Fin 4]] 1 = Fin 0"
  by (simp add: pivot_at_def gauss_state_singular_example select_pivot_def swap_rows_def Let_def)


text \<open>
  C1, witness: for \<open>[[1, 2], [2, 4]]\<close> the pivot of the second step is zero, and the
  result has two rows, all of whose entries are non-finite.
\<close>

theorem matrixInverse_no_singularity_check_witness:
  "pivot_at [[Fin 1, Fin 2], [Fin 2, Fin 4]] 1 = Fin 0 \<and>
   length (matrixInverse [[Fin 1, Fin 2], [Fin 2, Fin 4]]) = 2 \<and>
   length (matrixInverse [[Fin 1, Fin 2], [Fin 2, Fin 4]] ! 0) = 2 \<and>
   \<not> finite_num (matrixInverse [[Fin 1, Fin 2], [Fin 2, Fin 4]] ! 0 ! 0) \<and>
   \<not> finite_num (matrixInverse [[Fin 1, Fin 2], [Fin 2, Fin 4]] ! 0 ! 1)"
proof -
  let ?m = "[[Fin 1, Fin 2], [Fin 2, Fin 4]]"
  have sq: "square ?m" by (simp add: square_def)
  note T = matrixInverse_no_singularity_check [OF sq]
  have l: "length (matrixInverse ?m) = 2" using T [THEN conjunct1] by simp
  then have row: "matrixInverse ?m ! 0 \<in> set (matrixInverse ?m)" by simp
  have lr: "length (matrixInverse ?m ! 0) = 2"
    using T [THEN conjunct2, THEN conjunct1] row by simp
  have "1 < length ?m" by simp
  note T1 = T [THEN conjunct2, THEN conjunct2, THEN spec, of 1, THEN mp, OF this,
    THEN mp, OF pivot_at_singular_example]
  have nf: "\<not> finite_num v" if "v \<in> set (matrixInverse ?m ! 0)" for v
    using T1 row that by blast
  have "matrixInverse ?m ! 0 ! 0 \<in> set (matrixInverse ?m ! 0)"
    and "matrixInverse ?m ! 0 ! 1 \<in> set (matrixInverse ?m ! 0)"
    using lr by simp_all
  then show ?thesis using pivot_at_singular_example l lr nf by blast
qed

text \<open>
  C1, counterexample to the claim as stated: on the singular matrix \<open>[[1, 2], [2, 4]]\<close>
  the call returns a matrix of infinities, and a pivot of \<open>2^-50\<close>, far below \<open>1e-12\<close>
  of the matrix scale, is divided by like any other.
\<close>

theorem matrixInverse_singular_counterexample:
  "matrixInverse [[Fin 1, Fin 2], [Fin 2, Fin 4]] = [[NInf, PInf], [PInf, NInf]] \<and>
   matrixInverse [[Fin 1, Fin 0], [Fin 0, Fin (1 / 2 ^ 50)]] = [[Fin 1, Fin 0], [Fin 0, Fin (2 ^ 50)]]"
  by (simp add: matrixInverse_def augment_def gauss_step_def select_pivot_def swap_rows_def
      scale_row_def eliminate_row_def upt_rec minus_jsnum_def Let_def)

section \<open>Incomplete beta function\<close>





lemma floor_eps_NaN [simp]: "floor_eps NaN = NaN"
  by (simp add: floor_eps_def)









section \<open>Boundary conditions\<close>






end
